theory Spec2Isabelle
  imports Main "HOL-Library.Sublist" "HOL-Library.List_Lexorder" "HOL-Library.Char_ord"
begin

section \<open>Strings and optional values of the source language\<close>

text \<open>
  The generator is a TypeScript program. A value of type \<open>string | undefined\<close> is a
  \<open>string option\<close> (\<open>None\<close> is \<open>undefined\<close>); a string is a list of characters. The
  only operations the program performs on strings are concatenation, comparison, prefix and
  suffix tests and splitting on the slash, all of which act on the sequence of code units,
  so the width of a character plays no role.
\<close>

datatype error = TypeError | ListingError string

definition truthy :: "string \<Rightarrow> bool" where
  "truthy s = (s \<noteq> [])"

definition truthy_opt :: "string option \<Rightarrow> bool" where
  "truthy_opt v = (case v of None \<Rightarrow> False | Some s \<Rightarrow> truthy s)"

definition startsWith :: "string \<Rightarrow> string \<Rightarrow> bool" where
  "startsWith s p = prefix p s"

text \<open>\<open>String.prototype.split(sep)\<close> for a one-character separator: the empty string
  splits into one empty piece, and \<open>n\<close> separators give \<open>n + 1\<close> pieces.\<close>

fun split :: "char \<Rightarrow> string \<Rightarrow> string list" where
  "split c [] = [[]]"
| "split c (x # xs) =
     (if x = c then [] # split c xs
      else (case split c xs of p # ps \<Rightarrow> (x # p) # ps | [] \<Rightarrow> [[x]]))"

text \<open>\<open>Array.prototype.join(sep)\<close> on an array of strings.\<close>

fun join :: "string \<Rightarrow> string list \<Rightarrow> string" where
  "join sep [] = []"
| "join sep [x] = x"
| "join sep (x # y # ys) = x @ sep @ join sep (y # ys)"

text \<open>\<open>array.findIndex(p)\<close>; \<open>None\<close> stands for the result \<open>-1\<close>.\<close>

fun findIndex :: "('a \<Rightarrow> bool) \<Rightarrow> 'a list \<Rightarrow> nat option" where
  "findIndex P [] = None"
| "findIndex P (x # xs) =
     (if P x then Some 0 else (case findIndex P xs of None \<Rightarrow> None | Some i \<Rightarrow> Some (Suc i)))"

text \<open>A \<open>map\<close> whose callback may throw: the first exception aborts the whole map.\<close>

fun map_result :: "('a \<Rightarrow> error + 'b) \<Rightarrow> 'a list \<Rightarrow> error + 'b list" where
  "map_result f [] = Inr []"
| "map_result f (x # xs) =
     (case f x of
        Inl e \<Rightarrow> Inl e
      | Inr y \<Rightarrow> (case map_result f xs of Inl e \<Rightarrow> Inl e | Inr ys \<Rightarrow> Inr (y # ys)))"

section \<open>removeLeadingTrailingSlashes\<close>

text \<open>The two \<open>while\<close> loops of the function, each as a recursion on the string.\<close>

fun strip_leading :: "string \<Rightarrow> string" where
  "strip_leading [] = []"
| "strip_leading (c # cs) = (if c = CHR ''/'' then strip_leading cs else c # cs)"

function strip_trailing :: "string \<Rightarrow> string" where
  "strip_trailing s =
     (if s \<noteq> [] \<and> last s = CHR ''/'' then strip_trailing (butlast s) else s)"
  by pat_completeness auto
termination
  by (relation "measure length") auto

declare strip_trailing.simps [simp del]

definition removeLeadingTrailingSlashes :: "string option \<Rightarrow> string option" where
  "removeLeadingTrailingSlashes str =
     (case str of
        None \<Rightarrow> None
      | Some s \<Rightarrow> if \<not> truthy s then Some s else Some (strip_trailing (strip_leading s)))"

section \<open>Options and objects\<close>

text \<open>The option bag of the command line, with the defaults of the program: every string
  option but \<open>endpoint\<close> defaults to a string, so only \<open>endpoint\<close> may be undefined
  (\<open>outputPath\<close> is the option \<open>output\<close>).\<close>

record options =
  bucket :: string
  region :: string
  footer :: string
  outputPath :: string
  verbose :: bool
  endpoint :: "string option"
  includeHiddenFiles :: bool
  includeSitemap :: bool
  domain :: string
  rootPath :: string
  forcePathStyle :: bool

text \<open>An object of the bucket listing. The program reads only its \<open>Key\<close>, which the
  listing client types as optional; the other fields of a listed object are copied into the
  node unread and are left out.\<close>

record s3object =
  Key :: "string option"

text \<open>A node is the listed object extended with the derived fields (the object spread of
  the source), and a tree node is a node extended with its children.\<close>

record node = s3object +
  KeyParts :: "string list"
  LevelsDeep :: nat
  IsFolder :: bool
  IsFile :: bool
  IsHiddenFile :: bool
  ParentKey :: string
  FileName :: string
  URL :: string

record tnode = node +
  Children :: "node list"

section \<open>Key parser and node classifier\<close>

definition keyParts_of :: "string option \<Rightarrow> string list" where
  "keyParts_of k =
     filter (\<lambda>part. length part > 0) (case k of None \<Rightarrow> [] | Some s \<Rightarrow> split CHR ''/'' s)"

definition isFolder_of :: "s3object list \<Rightarrow> s3object \<Rightarrow> bool" where
  "isFolder_of array object =
     list_ex (\<lambda>otherObject.
        (case Key otherObject of
           None \<Rightarrow> False
         | Some k \<Rightarrow> startsWith k (case Key object of None \<Rightarrow> [] | Some s \<Rightarrow> s))
        \<and> Key otherObject \<noteq> Key object) array"

definition object_url :: "options \<Rightarrow> bool \<Rightarrow> string list \<Rightarrow> string" where
  "object_url opts isFolder keyParts =
     (if isFolder then join ''/'' (rootPath opts # keyParts)
      else if truthy_opt (endpoint opts) then
        (case endpoint opts of None \<Rightarrow> [] | Some e \<Rightarrow> e) @ ''/'' @ bucket opts @ ''/''
          @ join ''/'' keyParts
      else
        ''https://'' @ (if forcePathStyle opts then [] else bucket opts @ ''.'')
          @ ''s3-'' @ region opts @ ''.amazonaws.com''
          @ (if forcePathStyle opts then ''/'' @ bucket opts else []) @ ''/''
          @ join ''/'' keyParts)"

text \<open>The callback of the first \<open>map\<close>. \<open>fileName\<close> is the last key part, \<open>undefined\<close> when
  there is none; calling \<open>startsWith\<close> on \<open>undefined\<close> throws a \<open>TypeError\<close>.\<close>

definition classify :: "options \<Rightarrow> s3object list \<Rightarrow> s3object \<Rightarrow> error + node" where
  "classify opts array object =
     (let keyParts = keyParts_of (Key object);
          levelsDeep = length keyParts;
          isFolder = isFolder_of array object;
          isFile = (\<not> isFolder);
          parentKey = join ''/'' (butlast keyParts);
          fileName = (if keyParts = [] then None else Some (last keyParts))
      in case fileName of
           None \<Rightarrow> Inl TypeError
         | Some f \<Rightarrow>
             Inr \<lparr> Key = Key object, KeyParts = keyParts, LevelsDeep = levelsDeep,
                   IsFolder = isFolder, IsFile = isFile, IsHiddenFile = startsWith f ''.'',
                   ParentKey = parentKey, FileName = f,
                   URL = object_url opts isFolder keyParts \<rparr>)"

definition classify_all :: "options \<Rightarrow> s3object list \<Rightarrow> error + node list" where
  "classify_all opts allObjects = map_result (classify opts allObjects) allObjects"

section \<open>Tree synthesizer\<close>

text \<open>The folder node pushed by the \<open>for\<close> loop of the \<open>flatMap\<close> for the index \<open>i\<close>.\<close>

definition synthesize :: "options \<Rightarrow> node \<Rightarrow> nat \<Rightarrow> node" where
  "synthesize opts object i =
     (let key0 = join ''/'' (take i (KeyParts object));
          key = (if length key0 = 0 then ''/'' else key0);
          keyParts = filter (\<lambda>part. length part > 0) (split CHR ''/'' key);
          levelsDeep = length keyParts;
          isFolder = True;
          isFile = (\<not> isFolder);
          parentKey = join ''/'' (butlast keyParts);
          fileName = (if keyParts = [] then [] else last keyParts)
      in \<lparr> Key = Some key, KeyParts = keyParts, LevelsDeep = levelsDeep,
            IsFolder = isFolder, IsFile = isFile, IsHiddenFile = startsWith fileName ''.'',
            ParentKey = parentKey, FileName = fileName,
            URL = join ''/'' (rootPath opts # keyParts) \<rparr>)"

text \<open>The callback of the \<open>flatMap\<close>: the object itself, then one folder for each
  \<open>i = LevelsDeep - 1, ..., 0\<close>.\<close>

definition expand :: "options \<Rightarrow> node \<Rightarrow> node list" where
  "expand opts object = object # map (synthesize opts object) (rev [0..<LevelsDeep object])"

definition merged :: "options \<Rightarrow> node list \<Rightarrow> node list" where
  "merged opts nodes = concat (map (expand opts) nodes)"

definition normKey :: "'a s3object_scheme \<Rightarrow> string option" where
  "normKey object = removeLeadingTrailingSlashes (Key object)"

text \<open>The duplicate filter: an element stays when it is the first of the array with its
  normalized key.\<close>

definition dedup :: "node list \<Rightarrow> node list" where
  "dedup array =
     map fst (filter (\<lambda>(object, index).
        findIndex (\<lambda>otherObject. normKey otherObject = normKey object) array = Some index)
       (zip array [0..<length array]))"

definition children_of :: "node list \<Rightarrow> node \<Rightarrow> node list" where
  "children_of array object =
     (if Key object = Some ''/'' then filter (\<lambda>otherObject. LevelsDeep otherObject = 1) array
      else filter (\<lambda>otherObject.
             removeLeadingTrailingSlashes (Some (ParentKey otherObject))
               = removeLeadingTrailingSlashes (Key object)) array)"

definition attach :: "node list \<Rightarrow> node \<Rightarrow> tnode" where
  "attach array object =
     \<lparr> Key = Key object, KeyParts = KeyParts object, LevelsDeep = LevelsDeep object,
       IsFolder = IsFolder object, IsFile = IsFile object,
       IsHiddenFile = IsHiddenFile object, ParentKey = ParentKey object,
       FileName = FileName object, URL = URL object,
       Children = children_of array object \<rparr>"

definition link :: "node list \<Rightarrow> tnode list" where
  "link array = map (attach array) array"

text \<open>The whole pipeline that computes \<open>result\<close> from \<open>allObjects\<close>.\<close>

definition build_tree :: "options \<Rightarrow> s3object list \<Rightarrow> error + tnode list" where
  "build_tree opts allObjects =
     (case classify_all opts allObjects of
        Inl e \<Rightarrow> Inl e
      | Inr nodes \<Rightarrow> Inr (link (dedup (merged opts nodes))))"

section \<open>Page emitter\<close>

text \<open>\<open>Array.prototype.sort\<close> is a stable sort. It is modelled as a stable insertion sort
  over the comparator of the source; \<open>localeCompare\<close> belongs to the runtime and is a
  parameter. For a comparator that is not a consistent order the language leaves the
  resulting order to the implementation; nothing proved below depends on the order.\<close>

fun insert_by :: "('a \<Rightarrow> 'a \<Rightarrow> int) \<Rightarrow> 'a \<Rightarrow> 'a list \<Rightarrow> 'a list" where
  "insert_by cmp x [] = [x]"
| "insert_by cmp x (y # ys) = (if cmp x y \<le> 0 then x # y # ys else y # insert_by cmp x ys)"

definition sort_by :: "('a \<Rightarrow> 'a \<Rightarrow> int) \<Rightarrow> 'a list \<Rightarrow> 'a list" where
  "sort_by cmp xs = foldr (insert_by cmp) xs []"

definition compare_items :: "(string \<Rightarrow> string \<Rightarrow> int) \<Rightarrow> node \<Rightarrow> node \<Rightarrow> int" where
  "compare_items localeCompare a b =
     (if IsFolder a \<and> \<not> IsFolder b then - 1
      else if \<not> IsFolder a \<and> IsFolder b then 1
      else localeCompare (FileName a) (FileName b))"

text \<open>The filter on the children of a rendered node, and the \<open>items\<close> of its page model.\<close>

definition visible_children :: "options \<Rightarrow> tnode \<Rightarrow> node list" where
  "visible_children opts object =
     filter (\<lambda>child. includeHiddenFiles opts \<or> \<not> IsHiddenFile child) (Children object)"

definition page_items :: "(string \<Rightarrow> string \<Rightarrow> int) \<Rightarrow> options \<Rightarrow> tnode \<Rightarrow> node list" where
  "page_items localeCompare opts object =
     sort_by (compare_items localeCompare) (visible_children opts object)"

section \<open>The main routine\<close>

text \<open>The collaborators of the program are parameters: the listing client (\<open>send\<close>, which
  may fail), the template engine, \<open>path.join\<close>, the comparison of the locale, the XML
  builder and the directory of the script. The template engine and the file system are
  taken to succeed. What the program does to the outside is recorded as a trace of events,
  the pages in the order of the nodes.\<close>

record request =
  Bucket :: string
  MaxKeys :: nat
  Marker :: "string option"

record response =
  Contents :: "s3object list option"
  NextMarker :: "string option"

record page_model =
  title :: string
  items :: "node list"
  model_options :: options

record env =
  send :: "request \<Rightarrow> error + response"
  renderFile :: "page_model \<Rightarrow> string"
  path_join :: "string list \<Rightarrow> string"
  localeCompare :: "string \<Rightarrow> string \<Rightarrow> int"
  xml_build :: "string list \<Rightarrow> string"
  dirname :: string

datatype event =
    ConsoleLog string
  | ConsoleLogResult "tnode list"
  | ConsoleError string
  | Send request
  | MkDir string
  | WriteFile string string
  | CopyDir string string

datatype outcome = Exit nat | Completed | Rejected error

text \<open>The \<open>do ... while\<close> loop that follows the markers of the listing. It need not
  terminate (a store may return a marker forever), hence the result \<open>None\<close>.\<close>

partial_function (option) list_objects ::
  "(request \<Rightarrow> error + response) \<Rightarrow> string \<Rightarrow> request \<Rightarrow> s3object list \<Rightarrow> event list
     \<Rightarrow> (event list \<times> (error + s3object list)) option" where
  "list_objects client b command allObjects trace =
     (case client command of
        Inl err \<Rightarrow> Some (trace @ [Send command], Inl err)
      | Inr response \<Rightarrow>
          (let allObjects' = allObjects @ (case Contents response of None \<Rightarrow> [] | Some c \<Rightarrow> c);
               command' = \<lparr> Bucket = b, MaxKeys = 100, Marker = NextMarker response \<rparr>
           in if truthy_opt (NextMarker response)
              then list_objects client b command' allObjects' (trace @ [Send command])
              else Some (trace @ [Send command], Inr allObjects')))"

definition emit_page :: "env \<Rightarrow> options \<Rightarrow> tnode \<Rightarrow> event list" where
  "emit_page e opts object =
     (if IsFile object then []
      else
        (let file = renderFile e
               \<lparr> title = bucket opts @ '' - '' @ FileName object,
                 items = page_items (localeCompare e) opts object,
                 model_options = opts \<rparr>;
             saveLocation =
               path_join e [outputPath opts, (case Key object of None \<Rightarrow> [] | Some k \<Rightarrow> k)]
         in [MkDir saveLocation, WriteFile (path_join e [saveLocation, ''index.html'']) file]))"

definition sitemap_entry :: "options \<Rightarrow> tnode \<Rightarrow> string" where
  "sitemap_entry opts object =
     join ''/''
       (concat (map (\<lambda>item. case item of None \<Rightarrow> [] | Some s \<Rightarrow> if truthy s then [s] else [])
          (map removeLeadingTrailingSlashes
             [Some (domain opts), Some (rootPath opts), Key object])))"

definition sitemap_urls :: "options \<Rightarrow> tnode list \<Rightarrow> string list" where
  "sitemap_urls opts result =
     sort (remdups (map (sitemap_entry opts) (filter (\<lambda>object. \<not> IsFile object) result)))"

definition run :: "env \<Rightarrow> options \<Rightarrow> (event list \<times> outcome) option" where
  "run e options0 =
     (let t1 = (if verbose options0 then [ConsoleLog ''Verbose output enabled.''] else []);
          forced = (truthy_opt (endpoint options0) \<and> \<not> forcePathStyle options0);
          opts = (if forced then options0 \<lparr> forcePathStyle := True \<rparr> else options0);
          t2 = (if forced \<and> verbose options0
                then [ConsoleLog ''Forcing Path Style since endpoint is specified.''] else [])
      in if includeSitemap opts \<and> \<not> truthy (domain opts) then
           Some (t1 @ t2 @ [ConsoleError
             ''Domain is required if using sitemap. Domain is not currently set. Please set the --domain option.''],
             Exit 1)
         else if \<not> truthy (bucket opts) then
           Some (t1 @ t2 @ [ConsoleError
             ''Bucket not set. Please set the AWS_BUCKET environment variable or use the --bucket option.''],
             Exit 1)
         else
           (case list_objects (send e) (bucket opts)
                   \<lparr> Bucket = bucket opts, MaxKeys = 1000, Marker = None \<rparr> [] [] of
              None \<Rightarrow> None
            | Some (t3, Inl err) \<Rightarrow> Some (t1 @ t2 @ t3, Rejected err)
            | Some (t3, Inr allObjects) \<Rightarrow>
                (case build_tree opts allObjects of
                   Inl err \<Rightarrow> Some (t1 @ t2 @ t3, Rejected err)
                 | Inr result \<Rightarrow>
                     Some (t1 @ t2 @ t3 @ [ConsoleLogResult result]
                           @ concat (map (emit_page e opts) result)
                           @ (if includeSitemap opts
                              then [WriteFile (path_join e [outputPath opts, ''sitemap.xml''])
                                      (xml_build e (sitemap_urls opts result))]
                              else [])
                           @ [CopyDir (path_join e [dirname e, ''..'', ''public''])
                                (path_join e [outputPath opts, ''public''])],
                           Completed))))"

text \<open>The events that reach the object store or the file system.\<close>

fun is_io :: "event \<Rightarrow> bool" where
  "is_io (Send _) = True"
| "is_io (MkDir _) = True"
| "is_io (WriteFile _ _) = True"
| "is_io (CopyDir _ _) = True"
| "is_io _ = False"

section \<open>Notions used to state the properties\<close>

text \<open>Path segments as the key parser produces them: not empty and free of slashes.\<close>

definition segments_ok :: "string list \<Rightarrow> bool" where
  "segments_ok ps = list_all (\<lambda>p. p \<noteq> [] \<and> CHR ''/'' \<notin> set p) ps"

text \<open>A key in plain form is its segments joined by single slashes, with at most one
  trailing slash: it has no leading slash and no doubled slash.\<close>

definition plain_key :: "string option \<Rightarrow> bool" where
  "plain_key k =
     (case k of
        None \<Rightarrow> False
      | Some s \<Rightarrow> s = join ''/'' (keyParts_of k) \<or> s = join ''/'' (keyParts_of k) @ ''/'')"

text \<open>The position \<open>i\<close> holds the first element of the array with its normalized key.\<close>

definition first_with_key :: "node list \<Rightarrow> nat \<Rightarrow> bool" where
  "first_with_key xs i = (\<forall>j<i. normKey (xs ! j) \<noteq> normKey (xs ! i))"

text \<open>What every node of the pipeline satisfies: its derived fields are functions of its
  key parts and of its folder flag.\<close>

definition node_inv :: "options \<Rightarrow> 'a node_scheme \<Rightarrow> bool" where
  "node_inv opts n =
     (segments_ok (KeyParts n) \<and> LevelsDeep n = length (KeyParts n)
      \<and> IsFile n = (\<not> IsFolder n)
      \<and> ParentKey n = join ''/'' (butlast (KeyParts n))
      \<and> FileName n = (if KeyParts n = [] then [] else last (KeyParts n))
      \<and> IsHiddenFile n = startsWith (FileName n) ''.''
      \<and> URL n = object_url opts (IsFolder n) (KeyParts n)
      \<and> Key n \<noteq> None)"

text \<open>The nodes of a result, none when the pipeline threw.\<close>

definition nodes_of :: "error + 'a list \<Rightarrow> 'a list" where
  "nodes_of r = (case r of Inl _ \<Rightarrow> [] | Inr xs \<Rightarrow> xs)"

text \<open>The view of a node that the examples display.\<close>

definition summary :: "'a node_scheme \<Rightarrow> string option \<times> string list \<times> bool" where
  "summary n = (Key n, KeyParts n, IsFolder n)"

text \<open>Options and collaborators for the examples: the defaults of the command line with a
  bucket and a region.\<close>

definition example_options :: options where
  "example_options =
     \<lparr> bucket = ''b'', region = ''r'', footer = [], outputPath = ''.'', verbose = False,
       endpoint = None, includeHiddenFiles = False, includeSitemap = False, domain = [],
       rootPath = ''/'', forcePathStyle = False \<rparr>"

definition obj :: "string \<Rightarrow> s3object" where
  "obj k = \<lparr> Key = Some k \<rparr>"

definition example_env :: "s3object list \<Rightarrow> env" where
  "example_env listing =
     \<lparr> send = (\<lambda>_. Inr \<lparr> Contents = Some listing, NextMarker = None \<rparr>),
       renderFile = (\<lambda>m. title m),
       path_join = join ''/'',
       localeCompare = (\<lambda>a b. if a = b then 0 else if a < b then - 1 else 1),
       xml_build = join '','',
       dirname = ''src'' \<rparr>"

section \<open>Splitting, joining and stripping\<close>

lemma split_not_Nil: "split c s \<noteq> []"
  by (induction s) (auto split: list.splits)

lemma split_no_sep: "p \<in> set (split c s) \<Longrightarrow> c \<notin> set p"
  by (induction s arbitrary: p) (auto split: list.splits if_splits)

lemma split_single: "c \<notin> set x \<Longrightarrow> split c x = [x]"
  by (induction x) auto

lemma split_append_sep: "c \<notin> set x \<Longrightarrow> split c (x @ c # r) = x # split c r"
  by (induction x) (auto split: list.splits)

lemma split_join:
  "ps \<noteq> [] \<Longrightarrow> (\<forall>p\<in>set ps. c \<notin> set p) \<Longrightarrow> split c (join [c] ps) = ps"
proof (induction ps rule: induct_list012)
  case 1
  then show ?case by simp
next
  case (2 x)
  then show ?case by (simp add: split_single)
next
  case (3 x y zs)
  then show ?case by (simp add: split_append_sep)
qed

lemma keyParts_of_ok: "segments_ok (keyParts_of k)"
  by (auto simp: segments_ok_def keyParts_of_def list_all_iff split_no_sep split: option.splits)

lemma parts_join:
  assumes "segments_ok ps"
  shows "filter (\<lambda>part. length part > 0) (split CHR ''/'' (join ''/'' ps)) = ps"
proof (cases "ps = []")
  case True
  then show ?thesis by simp
next
  case False
  have "split CHR ''/'' (join ''/'' ps) = ps"
    using False assms by (intro split_join) (auto simp: segments_ok_def list_all_iff)
  moreover have "filter (\<lambda>part. length part > 0) ps = ps"
    using assms by (auto simp: segments_ok_def list_all_iff intro: filter_True)
  ultimately show ?thesis by simp
qed

lemma keyParts_of_join: "segments_ok ps \<Longrightarrow> keyParts_of (Some (join ''/'' ps)) = ps"
  using parts_join[of ps] by (simp add: keyParts_of_def)

lemma strip_leading_dropWhile: "strip_leading s = dropWhile (\<lambda>c. c = CHR ''/'') s"
  by (induction s) auto

lemma strip_trailing_rev: "strip_trailing s = rev (dropWhile (\<lambda>c. c = CHR ''/'') (rev s))"
proof (induction s rule: strip_trailing.induct)
  case (1 s)
  show ?case
  proof (cases "s \<noteq> [] \<and> last s = CHR ''/''")
    case True
    then obtain t where t: "s = t @ ''/''" by (metis append_butlast_last_id)
    have "strip_trailing s = strip_trailing (butlast s)"
      using True by (subst strip_trailing.simps) simp
    also have "\<dots> = rev (dropWhile (\<lambda>c. c = CHR ''/'') (rev (butlast s)))"
      using 1 True by simp
    finally show ?thesis using t by simp
  next
    case False
    then have "strip_trailing s = s" by (subst strip_trailing.simps) auto
    moreover have "rev (dropWhile (\<lambda>c. c = CHR ''/'') (rev s)) = s"
      using False by (cases s rule: rev_cases) auto
    ultimately show ?thesis by simp
  qed
qed

lemma strip_trailing_Nil [simp]: "strip_trailing [] = []"
  by (subst strip_trailing.simps) simp

lemma strip_trailing_snoc_slash [simp]: "strip_trailing (s @ ''/'') = strip_trailing s"
  by (subst strip_trailing.simps) simp

lemma strip_trailing_snoc_other: "c \<noteq> CHR ''/'' \<Longrightarrow> strip_trailing (s @ [c]) = s @ [c]"
  by (subst strip_trailing.simps) simp

lemma strip_leading_id: "s \<noteq> [] \<Longrightarrow> hd s \<noteq> CHR ''/'' \<Longrightarrow> strip_leading s = s"
  by (cases s) auto

lemma strip_trailing_id: "s \<noteq> [] \<Longrightarrow> last s \<noteq> CHR ''/'' \<Longrightarrow> strip_trailing s = s"
  by (subst strip_trailing.simps) simp

lemma hd_not_sep: "p \<noteq> [] \<Longrightarrow> c \<notin> set p \<Longrightarrow> hd p \<noteq> c"
  by (cases p) auto

lemma last_not_sep: "p \<noteq> [] \<Longrightarrow> c \<notin> set p \<Longrightarrow> last p \<noteq> c"
  by (induction p) auto

lemma join_hd: "segments_ok ps \<Longrightarrow> ps \<noteq> [] \<Longrightarrow> join ''/'' ps \<noteq> [] \<and> hd (join ''/'' ps) \<noteq> CHR ''/''"
proof (induction ps rule: induct_list012)
  case 1 then show ?case by simp
next
  case (2 x) then show ?case by (auto simp: segments_ok_def hd_not_sep)
next
  case (3 x y zs) then show ?case by (auto simp: segments_ok_def hd_not_sep)
qed

lemma join_last: "segments_ok ps \<Longrightarrow> ps \<noteq> [] \<Longrightarrow> last (join ''/'' ps) \<noteq> CHR ''/''"
proof (induction ps rule: induct_list012)
  case 1 then show ?case by simp
next
  case (2 x) then show ?case by (auto simp: segments_ok_def last_not_sep)
next
  case (3 x y zs)
  then have "join ''/'' (y # zs) \<noteq> []" using join_hd[of "y # zs"] by (simp add: segments_ok_def)
  with 3 show ?case by (simp add: segments_ok_def)
qed

lemma rlts_join:
  assumes "segments_ok ps"
  shows "removeLeadingTrailingSlashes (Some (join ''/'' ps)) = Some (join ''/'' ps)"
proof (cases "ps = []")
  case True then show ?thesis by (simp add: removeLeadingTrailingSlashes_def truthy_def)
next
  case False
  with assms join_hd join_last show ?thesis
    by (simp add: removeLeadingTrailingSlashes_def truthy_def strip_leading_id strip_trailing_id)
qed

lemma rlts_join_slash:
  assumes "segments_ok ps"
  shows "removeLeadingTrailingSlashes (Some (join ''/'' ps @ ''/'')) = Some (join ''/'' ps)"
proof (cases "ps = []")
  case True then show ?thesis by (simp add: removeLeadingTrailingSlashes_def truthy_def)
next
  case False
  with assms join_hd[of ps] join_last[of ps] have "strip_leading (join ''/'' ps @ ''/'') = join ''/'' ps @ ''/''"
    by (intro strip_leading_id) auto
  with False assms join_hd join_last show ?thesis
    by (simp add: removeLeadingTrailingSlashes_def truthy_def strip_trailing_id)
qed

section \<open>The key parser\<close>

text \<open>
  Claim C9. Parsing a key (splitting on the slash and discarding the empty pieces) is
  idempotent: joining the parsed segments with slashes and parsing the result again gives
  the same segments, for every key, defined or not.
\<close>

theorem C9_key_parsing_idempotent:
  "keyParts_of (Some (join ''/'' (keyParts_of k))) = keyParts_of k"
  by (rule keyParts_of_join) (rule keyParts_of_ok)

section \<open>Maps that may throw\<close>

lemma map_result_Inr_iff:
  "(\<exists>ys. map_result f xs = Inr ys) \<longleftrightarrow> (\<forall>x\<in>set xs. \<exists>y. f x = Inr y)"
  by (induction xs) (auto split: sum.splits)

lemma map_result_length: "map_result f xs = Inr ys \<Longrightarrow> length ys = length xs"
  by (induction xs arbitrary: ys) (auto split: sum.splits)

lemma map_result_nth:
  "map_result f xs = Inr ys \<Longrightarrow> i < length xs \<Longrightarrow> f (xs ! i) = Inr (ys ! i)"
proof (induction xs arbitrary: ys i)
  case Nil
  then show ?case by simp
next
  case (Cons x xs)
  then show ?case by (cases i) (auto split: sum.splits)
qed

lemma map_result_set:
  "map_result f xs = Inr ys \<Longrightarrow> y \<in> set ys \<Longrightarrow> \<exists>x\<in>set xs. f x = Inr y"
  by (induction xs arbitrary: ys) (auto split: sum.splits)

lemma map_result_set2:
  "map_result f xs = Inr ys \<Longrightarrow> x \<in> set xs \<Longrightarrow> \<exists>y\<in>set ys. f x = Inr y"
  by (induction xs arbitrary: ys) (auto split: sum.splits)

lemma map_result_Inl:
  "map_result f xs = Inl e \<Longrightarrow> \<exists>x\<in>set xs. f x = Inl e"
  by (induction xs) (auto split: sum.splits)

section \<open>The node classifier\<close>

lemma isFolder_of_Some:
  assumes "Key object = Some k"
  shows "isFolder_of array object \<longleftrightarrow>
    (\<exists>other\<in>set array. (\<exists>k'. Key other = Some k' \<and> prefix k k') \<and> Key other \<noteq> Some k)"
  unfolding isFolder_of_def list_ex_iff startsWith_def assms option.case
  by (auto split: option.splits)

lemma isFolder_of_iff:
  assumes "Key object = Some k"
  shows "isFolder_of array object \<longleftrightarrow> (\<exists>k'. Some k' \<in> Key ` set array \<and> prefix k k' \<and> k' \<noteq> k)"
proof
  assume "isFolder_of array object"
  then obtain other k' where "other \<in> set array" "Key other = Some k'" "prefix k k'" "k' \<noteq> k"
    unfolding isFolder_of_Some[OF assms] by auto
  then show "\<exists>k'. Some k' \<in> Key ` set array \<and> prefix k k' \<and> k' \<noteq> k"
    by (metis image_eqI)
next
  assume "\<exists>k'. Some k' \<in> Key ` set array \<and> prefix k k' \<and> k' \<noteq> k"
  then obtain k' other where "other \<in> set array" "Key other = Some k'" "prefix k k'" "k' \<noteq> k"
    by (metis imageE)
  then show "isFolder_of array object"
    unfolding isFolder_of_Some[OF assms] by (intro bexI[of _ other]) simp_all
qed

lemma classify_Inr_iff:
  "(\<exists>n. classify opts array object = Inr n) \<longleftrightarrow> keyParts_of (Key object) \<noteq> []"
  by (simp add: classify_def Let_def)

lemma classify_Inl: "classify opts array object = Inl e \<Longrightarrow> e = TypeError"
  by (simp add: classify_def Let_def split: if_splits)

lemma parts_empty_iff:
  "filter (\<lambda>part. length part > 0) (split c s) = [] \<longleftrightarrow> set s \<subseteq> {c}"
proof (induction s)
  case Nil
  then show ?case by simp
next
  case (Cons x xs)
  show ?case
  proof (cases "x = c")
    case True
    with Cons show ?thesis by simp
  next
    case False
    obtain p ps where "split c xs = p # ps"
      using split_not_Nil[of c xs] by (cases "split c xs") auto
    with False show ?thesis by simp
  qed
qed

lemma keyParts_of_empty_iff:
  "keyParts_of k = [] \<longleftrightarrow> k = None \<or> (\<exists>s. k = Some s \<and> set s \<subseteq> {CHR ''/''})"
  using parts_empty_iff[of "CHR ''/''"] by (cases k) (simp_all add: keyParts_of_def)

lemma classify_fields:
  assumes "classify opts array object = Inr n"
  shows "Key n = Key object" and "KeyParts n = keyParts_of (Key object)"
    and "LevelsDeep n = length (keyParts_of (Key object))"
    and "IsFolder n = isFolder_of array object" and "IsFile n = (\<not> isFolder_of array object)"
    and "IsHiddenFile n = startsWith (last (keyParts_of (Key object))) ''.''"
    and "ParentKey n = join ''/'' (butlast (keyParts_of (Key object)))"
    and "FileName n = last (keyParts_of (Key object))"
    and "URL n = object_url opts (isFolder_of array object) (keyParts_of (Key object))"
    and "keyParts_of (Key object) \<noteq> []"
proof -
  let ?ps = "keyParts_of (Key object)"
  from assms have ne: "?ps \<noteq> []"
    by (auto simp: classify_def Let_def split: if_splits)
  with assms have n: "n = \<lparr> Key = Key object, KeyParts = ?ps, LevelsDeep = length ?ps,
      IsFolder = isFolder_of array object, IsFile = (\<not> isFolder_of array object),
      IsHiddenFile = startsWith (last ?ps) ''.'', ParentKey = join ''/'' (butlast ?ps),
      FileName = last ?ps, URL = object_url opts (isFolder_of array object) ?ps \<rparr>"
    by (auto simp: classify_def Let_def)
  show "Key n = Key object" "KeyParts n = ?ps" "LevelsDeep n = length ?ps"
    "IsFolder n = isFolder_of array object" "IsFile n = (\<not> isFolder_of array object)"
    "IsHiddenFile n = startsWith (last ?ps) ''.''" "ParentKey n = join ''/'' (butlast ?ps)"
    "FileName n = last ?ps" "URL n = object_url opts (isFolder_of array object) ?ps"
    by (simp_all add: n)
  show "?ps \<noteq> []" by (rule ne)
qed

lemma example_a_ab_classified:
  "classify_all example_options [obj ''a'', obj ''ab''] =
     Inr [\<lparr> Key = Some ''a'', KeyParts = [''a''], LevelsDeep = 1, IsFolder = True,
             IsFile = False, IsHiddenFile = False, ParentKey = [], FileName = ''a'',
             URL = ''//a'' \<rparr>,
          \<lparr> Key = Some ''ab'', KeyParts = [''ab''], LevelsDeep = 1, IsFolder = False,
             IsFile = True, IsHiddenFile = False, ParentKey = [], FileName = ''ab'',
             URL = ''https://b.s3-r.amazonaws.com/ab'' \<rparr>]"
  by code_simp

text \<open>
  Claim C1. For a listed key \<open>k\<close> the classifier computes the folder flag as true exactly
  when some key of the listing has \<open>k\<close> as a prefix and differs from \<open>k\<close>; when the
  classification of the listing returns, the node of \<open>k\<close> carries that flag, and it is a
  file exactly when it is not a folder. The test is on the raw strings: in the listing of
  the keys \<open>a\<close> and \<open>ab\<close>, the key \<open>a\<close> is a folder.
\<close>

theorem C1_folder_iff_proper_prefix:
  assumes "i < length array" and "Key (array ! i) = Some k"
  shows "(isFolder_of array (array ! i)
            \<longleftrightarrow> (\<exists>k'. Some k' \<in> Key ` set array \<and> prefix k k' \<and> k' \<noteq> k))
       \<and> (\<forall>nodes. classify_all opts array = Inr nodes \<longrightarrow>
              Key (nodes ! i) = Some k
            \<and> (IsFolder (nodes ! i)
                  \<longleftrightarrow> (\<exists>k'. Some k' \<in> Key ` set array \<and> prefix k k' \<and> k' \<noteq> k))
            \<and> (IsFile (nodes ! i) \<longleftrightarrow> \<not> IsFolder (nodes ! i)))
       \<and> isFolder_of [obj ''a'', obj ''ab''] (obj ''a'')"
proof -
  note iff = isFolder_of_iff[OF assms(2), of array]
  have "Key (nodes ! i) = Some k
      \<and> (IsFolder (nodes ! i)
            \<longleftrightarrow> (\<exists>k'. Some k' \<in> Key ` set array \<and> prefix k k' \<and> k' \<noteq> k))
      \<and> (IsFile (nodes ! i) \<longleftrightarrow> \<not> IsFolder (nodes ! i))"
    if "classify_all opts array = Inr nodes" for nodes
  proof -
    have c: "classify opts array (array ! i) = Inr (nodes ! i)"
      using that assms(1) unfolding classify_all_def by (rule map_result_nth)
    have f: "IsFolder (nodes ! i) = isFolder_of array (array ! i)"
      and g: "IsFile (nodes ! i) = (\<not> isFolder_of array (array ! i))"
      and h: "Key (nodes ! i) = Key (array ! i)"
      using classify_fields[OF c] by simp_all
    from f g h iff assms(2) show ?thesis by simp
  qed
  moreover have "isFolder_of [obj ''a'', obj ''ab''] (obj ''a'')"
    by (simp add: isFolder_of_def obj_def startsWith_def)
  ultimately show ?thesis using iff by blast
qed

theorem C1_folder_iff_proper_prefix_witness:
  "Key ([obj ''a'', obj ''ab''] ! 0) = Some ''a''
   \<and> isFolder_of [obj ''a'', obj ''ab''] ([obj ''a'', obj ''ab''] ! 0)
   \<and> (\<exists>nodes. classify_all example_options [obj ''a'', obj ''ab''] = Inr nodes
        \<and> Key (nodes ! 0) = Some ''a'' \<and> IsFolder (nodes ! 0) \<and> \<not> IsFile (nodes ! 0))
   \<and> (\<exists>k'. Some k' \<in> Key ` set [obj ''a'', obj ''ab''] \<and> prefix ''a'' k' \<and> k' \<noteq> ''a'')"
proof -
  have k: "Key ([obj ''a'', obj ''ab''] ! 0) = Some ''a''"
    by (simp add: obj_def)
  have l: "0 < length [obj ''a'', obj ''ab'']"
    by simp
  have f: "isFolder_of [obj ''a'', obj ''ab''] ([obj ''a'', obj ''ab''] ! 0)"
    by (simp add: isFolder_of_def obj_def startsWith_def)
  show ?thesis
    using C1_folder_iff_proper_prefix[OF l k, of example_options] k f
      example_a_ab_classified
    by auto
qed

text \<open>
  Claim C10. The classification step produces nodes exactly when every listed key has at
  least one non-empty segment. An object whose key is undefined, empty or made of slashes
  only has no segment, its file name is undefined, and the hidden-file test on it throws:
  the step, and with it the whole reconstruction, ends in a \<open>TypeError\<close>.
\<close>

theorem C10_classification_total_iff_segments:
  "((\<exists>nodes. classify_all opts allObjects = Inr nodes)
      \<longleftrightarrow> (\<forall>object\<in>set allObjects. keyParts_of (Key object) \<noteq> []))
   \<and> ((\<exists>object\<in>set allObjects. Key object = None \<or> Key object = Some []
          \<or> (\<exists>s. Key object = Some s \<and> set s \<subseteq> {CHR ''/''}))
        \<longrightarrow> classify_all opts allObjects = Inl TypeError
          \<and> build_tree opts allObjects = Inl TypeError)"
proof -
  have a: "(\<exists>nodes. classify_all opts allObjects = Inr nodes)
      \<longleftrightarrow> (\<forall>object\<in>set allObjects. keyParts_of (Key object) \<noteq> [])"
    unfolding classify_all_def map_result_Inr_iff classify_Inr_iff ..
  have b: "classify_all opts allObjects = Inl TypeError"
    if "\<exists>object\<in>set allObjects. keyParts_of (Key object) = []"
  proof (cases "classify_all opts allObjects")
    case (Inl e)
    then obtain x where "classify opts allObjects x = Inl e"
      unfolding classify_all_def using map_result_Inl by blast
    then show ?thesis using Inl classify_Inl by blast
  next
    case (Inr nodes)
    with a that show ?thesis by blast
  qed
  have c: "build_tree opts allObjects = Inl TypeError"
    if "classify_all opts allObjects = Inl TypeError"
    using that by (simp add: build_tree_def)
  have d: "\<exists>object\<in>set allObjects. keyParts_of (Key object) = []"
    if "\<exists>object\<in>set allObjects. Key object = None \<or> Key object = Some []
          \<or> (\<exists>s. Key object = Some s \<and> set s \<subseteq> {CHR ''/''})"
  proof -
    from that obtain object where o: "object \<in> set allObjects"
      and k: "Key object = None \<or> Key object = Some []
          \<or> (\<exists>s. Key object = Some s \<and> set s \<subseteq> {CHR ''/''})" by blast
    from k have "keyParts_of (Key object) = []"
      unfolding keyParts_of_empty_iff by auto
    with o show ?thesis by blast
  qed
  from a b c d show ?thesis by blast
qed

theorem C10_classification_total_iff_segments_witness:
  "set ''//'' \<subseteq> {CHR ''/''}
   \<and> classify_all example_options [obj ''a'', obj ''//''] = Inl TypeError
   \<and> build_tree example_options [obj ''a'', obj ''//''] = Inl TypeError
   \<and> (\<nexists>nodes. classify_all example_options [obj ''a'', obj ''//''] = Inr nodes)"
  using C10_classification_total_iff_segments[of example_options "[obj ''a'', obj ''//'']"]
  by (simp add: obj_def)

section \<open>The duplicate filter\<close>

lemma findIndex_Some_iff:
  "findIndex P xs = Some i \<longleftrightarrow> i < length xs \<and> P (xs ! i) \<and> (\<forall>j<i. \<not> P (xs ! j))"
proof (induction xs arbitrary: i)
  case Nil
  then show ?case by simp
next
  case (Cons x xs)
  show ?case
  proof (cases "P x")
    case True
    then show ?thesis by (cases i) auto
  next
    case False
    show ?thesis
    proof (cases i)
      case 0
      with False show ?thesis by (simp split: option.splits)
    next
      case (Suc n)
      have a: "(\<forall>j<Suc n. \<not> P ((x # xs) ! j)) \<longleftrightarrow> (\<forall>j<n. \<not> P (xs ! j))"
        using False by (auto simp: less_Suc_eq_0_disj)
      have b: "findIndex P (x # xs) = Some (Suc n) \<longleftrightarrow> findIndex P xs = Some n"
        using False by (cases "findIndex P xs") auto
      show ?thesis unfolding Suc a b Cons.IH[of n] by simp
    qed
  qed
qed

lemma dedup_indices:
  "dedup xs = map (nth xs) (filter (first_with_key xs) [0..<length xs])"
proof -
  have z: "zip xs [0..<length xs] = map (\<lambda>i. (xs ! i, i)) [0..<length xs]"
    by (intro nth_equalityI) simp_all
  have "filter (\<lambda>(object, index).
          findIndex (\<lambda>otherObject. normKey otherObject = normKey object) xs = Some index)
          (map (\<lambda>i. (xs ! i, i)) [0..<length xs])
        = map (\<lambda>i. (xs ! i, i)) (filter (first_with_key xs) [0..<length xs])"
    unfolding filter_map
    by (intro arg_cong[where f="map _"] filter_cong)
       (auto simp: findIndex_Some_iff first_with_key_def)
  then show ?thesis
    unfolding dedup_def z by (simp add: comp_def)
qed

lemma set_dedup: "set (dedup xs) = {xs ! i | i. i < length xs \<and> first_with_key xs i}"
  unfolding dedup_indices by auto

lemma set_dedup_subset: "set (dedup xs) \<subseteq> set xs"
  unfolding set_dedup by auto

lemma distinct_dedup: "distinct (map normKey (dedup xs))"
proof -
  have "inj_on (\<lambda>i. normKey (xs ! i)) (set (filter (first_with_key xs) [0..<length xs]))"
  proof (rule inj_onI)
    fix i j
    assume i: "i \<in> set (filter (first_with_key xs) [0..<length xs])"
      and j: "j \<in> set (filter (first_with_key xs) [0..<length xs])"
      and e: "normKey (xs ! i) = normKey (xs ! j)"
    from i j e have "\<not> i < j" "\<not> j < i"
      by (auto simp: first_with_key_def)
    then show "i = j" by simp
  qed
  then show ?thesis
    unfolding dedup_indices by (simp add: distinct_map comp_def)
qed

lemma dedup_same_key:
  assumes "m \<in> set (dedup xs)" and "m' \<in> set (dedup xs)" and "normKey m = normKey m'"
  shows "m = m'"
  using distinct_dedup[of xs] assms by (auto simp: distinct_map dest: inj_onD)

lemma find_dedup: "find (\<lambda>m. normKey m = k) (dedup xs) = find (\<lambda>m. normKey m = k) xs"
proof (cases "find (\<lambda>m. normKey m = k) xs")
  case None
  then have "\<not> (\<exists>m\<in>set (dedup xs). normKey m = k)"
    using set_dedup_subset[of xs] by (auto simp: find_None_iff)
  then have "find (\<lambda>m. normKey m = k) (dedup xs) = None"
    unfolding find_None_iff by blast
  with None show ?thesis by simp
next
  case (Some x)
  then obtain i where i: "i < length xs" "normKey (xs ! i) = k" "x = xs ! i"
    "\<forall>j<i. normKey (xs ! j) \<noteq> k"
    unfolding find_Some_iff by blast
  then have x: "x \<in> set (dedup xs)"
    unfolding set_dedup first_with_key_def by blast
  then obtain y where y: "find (\<lambda>m. normKey m = k) (dedup xs) = Some y"
    using i by (cases "find (\<lambda>m. normKey m = k) (dedup xs)") (auto simp: find_None_iff)
  then have "y \<in> set (dedup xs)" "normKey y = k"
    unfolding find_Some_iff by auto
  with x i have "y = x" using dedup_same_key by blast
  with y Some show ?thesis by simp
qed

lemma normKey_attach [simp]: "normKey (attach array n) = normKey n"
  by (simp add: normKey_def attach_def)

lemma truncate_attach [simp]: "node.truncate (attach array n) = n"
  by (simp add: node.truncate_def attach_def)

lemma truncate_link [simp]: "map node.truncate (link array) = array"
  by (simp add: link_def comp_def)

lemma normKey_truncate [simp]: "normKey (node.truncate t) = normKey t"
  by (simp add: normKey_def node.truncate_def)





section \<open>Invariants of the nodes\<close>

lemma segments_ok_take: "segments_ok ps \<Longrightarrow> segments_ok (take i ps)"
  unfolding segments_ok_def list_all_iff by (auto dest: in_set_takeD)

lemma join_eq_Nil_iff: "segments_ok ps \<Longrightarrow> join ''/'' ps = [] \<longleftrightarrow> ps = []"
  using join_hd[of ps] by auto

lemma synth_key_parts:
  assumes "segments_ok ps"
  shows "filter (\<lambda>part. length part > 0)
           (split CHR ''/'' (if length (join ''/'' ps) = 0 then ''/'' else join ''/'' ps)) = ps"
proof (cases "ps = []")
  case True
  then show ?thesis by simp
next
  case False
  then have "join ''/'' ps \<noteq> []" using assms by (simp add: join_eq_Nil_iff)
  then show ?thesis using parts_join[OF assms] by simp
qed

lemma synthesize_fields:
  assumes "segments_ok (KeyParts r)"
  shows "KeyParts (synthesize opts r i) = take i (KeyParts r)"
    and "Key (synthesize opts r i)
           = Some (if take i (KeyParts r) = [] then ''/'' else join ''/'' (take i (KeyParts r)))"
    and "IsFolder (synthesize opts r i)"
    and "node_inv opts (synthesize opts r i)"
proof -
  let ?ps = "take i (KeyParts r)"
  let ?key = "if length (join ''/'' ?ps) = 0 then ''/'' else join ''/'' ?ps"
  have ok: "segments_ok ?ps" using assms by (rule segments_ok_take)
  have parts: "filter (\<lambda>part. length part > 0) (split CHR ''/'' ?key) = ?ps"
    using ok by (rule synth_key_parts)
  have key: "?key = (if ?ps = [] then ''/'' else join ''/'' ?ps)"
    using ok by (simp add: join_eq_Nil_iff)
  have n: "synthesize opts r i =
     \<lparr> Key = Some ?key, KeyParts = ?ps, LevelsDeep = length ?ps, IsFolder = True,
       IsFile = False,
       IsHiddenFile = startsWith (if ?ps = [] then [] else last ?ps) ''.'',
       ParentKey = join ''/'' (butlast ?ps),
       FileName = (if ?ps = [] then [] else last ?ps),
       URL = join ''/'' (rootPath opts # ?ps) \<rparr>"
    unfolding synthesize_def Let_def parts by simp
  show "KeyParts (synthesize opts r i) = ?ps" by (simp add: n)
  show "Key (synthesize opts r i) = Some (if ?ps = [] then ''/'' else join ''/'' ?ps)"
    using key by (simp add: n)
  show "IsFolder (synthesize opts r i)" by (simp add: n)
  show "node_inv opts (synthesize opts r i)"
    unfolding node_inv_def using ok by (simp add: n object_url_def)
qed


lemma classify_node_inv:
  assumes "classify opts array object = Inr n"
  shows "node_inv opts n"
  unfolding node_inv_def
  using classify_fields[OF assms] keyParts_of_ok[of "Key object"] keyParts_of_empty_iff[of "Key object"]
  by auto

lemma set_expand:
  "set (expand opts r) = insert r (synthesize opts r ` {i. i < LevelsDeep r})"
  unfolding expand_def by auto

lemma set_merged:
  "set (merged opts nodes) = (\<Union>r\<in>set nodes. insert r (synthesize opts r ` {i. i < LevelsDeep r}))"
  unfolding merged_def by (simp add: set_expand)

lemma merged_cases:
  assumes "m \<in> set (merged opts nodes)"
  shows "m \<in> set nodes \<or> (\<exists>r\<in>set nodes. \<exists>i<LevelsDeep r. m = synthesize opts r i)"
  using assms unfolding set_merged by blast

lemma merged_real: "r \<in> set nodes \<Longrightarrow> r \<in> set (merged opts nodes)"
  unfolding set_merged by blast

lemma merged_synth:
  "r \<in> set nodes \<Longrightarrow> i < LevelsDeep r \<Longrightarrow> synthesize opts r i \<in> set (merged opts nodes)"
  unfolding set_merged by blast

lemma classified_node_inv:
  assumes "classify_all opts allObjects = Inr nodes" and "r \<in> set nodes"
  shows "node_inv opts r"
proof -
  obtain object where "classify opts allObjects object = Inr r"
    using map_result_set[OF assms[unfolded classify_all_def]] by blast
  then show ?thesis by (rule classify_node_inv)
qed

lemma merged_node_inv:
  assumes "classify_all opts allObjects = Inr nodes" and "m \<in> set (merged opts nodes)"
  shows "node_inv opts m"
proof -
  from merged_cases[OF assms(2)] show ?thesis
  proof
    assume "m \<in> set nodes"
    with assms(1) show ?thesis by (rule classified_node_inv)
  next
    assume "\<exists>r\<in>set nodes. \<exists>i<LevelsDeep r. m = synthesize opts r i"
    then obtain r i where r: "r \<in> set nodes" and m: "m = synthesize opts r i" by blast
    have "segments_ok (KeyParts r)"
      using classified_node_inv[OF assms(1) r] by (simp add: node_inv_def)
    then show ?thesis unfolding m by (rule synthesize_fields)
  qed
qed

lemma node_inv_attach [simp]: "node_inv opts (attach array n) = node_inv opts n"
  by (simp add: node_inv_def attach_def)

lemma build_tree_Inr:
  assumes "build_tree opts allObjects = Inr tree"
  obtains nodes where "classify_all opts allObjects = Inr nodes"
    and "tree = link (dedup (merged opts nodes))"
  using assms unfolding build_tree_def by (auto split: sum.splits)

lemma tree_node_inv:
  assumes "build_tree opts allObjects = Inr tree" and "n \<in> set tree"
  shows "node_inv opts n"
proof -
  from assms(1) obtain nodes where c: "classify_all opts allObjects = Inr nodes"
    and t: "tree = link (dedup (merged opts nodes))" by (rule build_tree_Inr)
  from assms(2) obtain m where m: "m \<in> set (dedup (merged opts nodes))"
    and n: "n = attach (dedup (merged opts nodes)) m"
    unfolding t link_def by auto
  from m have "m \<in> set (merged opts nodes)" using set_dedup_subset by blast
  with c have "node_inv opts m" by (rule merged_node_inv)
  then show ?thesis unfolding n by simp
qed

lemma example_docs_tree:
  "build_tree example_options [obj ''docs/readme.md''] =
     Inr (nodes_of (build_tree example_options [obj ''docs/readme.md'']))"
  by code_simp

lemma example_docs_summary:
  "map summary (nodes_of (build_tree example_options [obj ''docs/readme.md'']))
     = [(Some ''docs/readme.md'', [''docs'', ''readme.md''], False),
        (Some ''docs'', [''docs''], True), (Some ''/'', [], True)]"
  by code_simp

text \<open>
  Claim C7. The URL of every node of the final tree is determined by this order: for a
  folder it is the root path and the key parts joined by slashes, whatever the endpoint;
  otherwise, with a custom endpoint, it is the endpoint, a slash, the bucket, a slash and
  the key parts joined by slashes; otherwise it is the virtual-hosted address (the bucket as
  a subdomain) or, when path style is forced, the path-style address (the bucket in the
  path).
\<close>

theorem C7_url_resolution_order:
  assumes "build_tree opts allObjects = Inr tree" and "n \<in> set tree"
  shows "(IsFolder n \<longrightarrow> URL n = join ''/'' (rootPath opts # KeyParts n))
       \<and> (\<not> IsFolder n \<and> truthy_opt (endpoint opts) \<longrightarrow>
            (\<exists>e. endpoint opts = Some e
               \<and> URL n = e @ ''/'' @ bucket opts @ ''/'' @ join ''/'' (KeyParts n)))
       \<and> (\<not> IsFolder n \<and> \<not> truthy_opt (endpoint opts) \<and> \<not> forcePathStyle opts \<longrightarrow>
            URL n = ''https://'' @ bucket opts @ ''.s3-'' @ region opts @ ''.amazonaws.com/''
                      @ join ''/'' (KeyParts n))
       \<and> (\<not> IsFolder n \<and> \<not> truthy_opt (endpoint opts) \<and> forcePathStyle opts \<longrightarrow>
            URL n = ''https://s3-'' @ region opts @ ''.amazonaws.com/'' @ bucket opts @ ''/''
                      @ join ''/'' (KeyParts n))"
proof -
  have "URL n = object_url opts (IsFolder n) (KeyParts n)"
    using tree_node_inv[OF assms] by (simp add: node_inv_def)
  then show ?thesis
    by (cases "endpoint opts") (simp_all add: object_url_def truthy_opt_def)
qed

lemma example_docs_endpoint_tree:
  "build_tree (example_options \<lparr> endpoint := Some ''http://e'', forcePathStyle := True \<rparr>)
       [obj ''docs/readme.md''] =
     Inr (nodes_of (build_tree
       (example_options \<lparr> endpoint := Some ''http://e'', forcePathStyle := True \<rparr>)
       [obj ''docs/readme.md'']))"
  by code_simp

theorem C7_url_resolution_order_witness:
  "URL (nodes_of (build_tree example_options [obj ''docs/readme.md'']) ! 0)
     = ''https://b.s3-r.amazonaws.com/docs/readme.md''
   \<and> URL (nodes_of (build_tree example_options [obj ''docs/readme.md'']) ! 1) = ''//docs''
   \<and> URL (nodes_of (build_tree
         (example_options \<lparr> endpoint := Some ''http://e'', forcePathStyle := True \<rparr>)
         [obj ''docs/readme.md'']) ! 0) = ''http://e/b/docs/readme.md''
   \<and> URL (nodes_of (build_tree
         (example_options \<lparr> endpoint := Some ''http://e'', forcePathStyle := True \<rparr>)
         [obj ''docs/readme.md'']) ! 1) = ''//docs''"
proof -
  let ?T = "nodes_of (build_tree example_options [obj ''docs/readme.md''])"
  let ?opts = "example_options \<lparr> endpoint := Some ''http://e'', forcePathStyle := True \<rparr>"
  let ?U = "nodes_of (build_tree ?opts [obj ''docs/readme.md''])"
  have m: "?T ! 0 \<in> set ?T" "?T ! 1 \<in> set ?T" "?U ! 0 \<in> set ?U" "?U ! 1 \<in> set ?U"
    by code_simp+
  have f: "\<not> IsFolder (?T ! 0)" "IsFolder (?T ! 1)" "\<not> IsFolder (?U ! 0)" "IsFolder (?U ! 1)"
    "KeyParts (?T ! 0) = [''docs'', ''readme.md'']" "KeyParts (?T ! 1) = [''docs'']"
    "KeyParts (?U ! 0) = [''docs'', ''readme.md'']" "KeyParts (?U ! 1) = [''docs'']"
    by code_simp+
  have o: "\<not> truthy_opt (endpoint example_options)" "\<not> forcePathStyle example_options"
    "bucket example_options = ''b''" "region example_options = ''r''"
    "rootPath example_options = ''/''" "endpoint ?opts = Some ''http://e''"
    "truthy_opt (Some ''http://e'')" "bucket ?opts = ''b''" "rootPath ?opts = ''/''"
    by (simp_all add: example_options_def truthy_opt_def truthy_def)
  show ?thesis
    using C7_url_resolution_order[OF example_docs_tree m(1)]
      C7_url_resolution_order[OF example_docs_tree m(2)]
      C7_url_resolution_order[OF example_docs_endpoint_tree m(3)]
      C7_url_resolution_order[OF example_docs_endpoint_tree m(4)]
    by (simp add: f o del: One_nat_def)
qed

section \<open>Children and page listings\<close>

lemma tree_children:
  assumes "build_tree opts allObjects = Inr tree" and "n \<in> set tree"
  shows "Children n =
          (if Key n = Some ''/''
           then filter (\<lambda>c. LevelsDeep c = 1) (map node.truncate tree)
           else filter (\<lambda>c. removeLeadingTrailingSlashes (Some (ParentKey c))
                             = removeLeadingTrailingSlashes (Key n))
                  (map node.truncate tree))"
proof -
  from assms(1) obtain nodes where t: "tree = link (dedup (merged opts nodes))"
    by (rule build_tree_Inr)
  let ?array = "dedup (merged opts nodes)"
  from assms(2) obtain m where n: "n = attach ?array m"
    unfolding t link_def by auto
  have "map node.truncate tree = ?array" unfolding t by simp
  then show ?thesis
    unfolding n by (simp add: attach_def children_of_def)
qed

lemma set_insert_by [simp]: "set (insert_by cmp x xs) = insert x (set xs)"
  by (induction xs) auto

lemma set_sort_by [simp]: "set (sort_by cmp xs) = set xs"
  unfolding sort_by_def by (induction xs) auto

lemma tree_children_subset:
  assumes "build_tree opts allObjects = Inr tree" and "n \<in> set tree"
  shows "set (Children n) \<subseteq> node.truncate ` set tree"
  unfolding tree_children[OF assms] by auto



text \<open>
  Claim C5, as the program has it. The listing of a rendered node excludes a child exactly
  when the hidden flag of the child is set and the option to include hidden files is
  unset; the flag is set exactly when the last key segment of the child starts with a dot,
  for folders as for files, so a hidden folder is excluded just as a hidden file is.
\<close>

theorem C5_hidden_children_excluded:
  assumes "build_tree opts allObjects = Inr tree" and "n \<in> set tree"
    and "c \<in> set (Children n)"
  shows "(c \<notin> set (page_items cmp opts n) \<longleftrightarrow> IsHiddenFile c \<and> \<not> includeHiddenFiles opts)
       \<and> (IsHiddenFile c \<longleftrightarrow> KeyParts c \<noteq> [] \<and> prefix ''.'' (last (KeyParts c)))"
proof -
  from assms obtain t where "t \<in> set tree" and c: "c = node.truncate t"
    using tree_children_subset by blast
  then have "node_inv opts t" using tree_node_inv[OF assms(1)] by blast
  then have "IsHiddenFile c \<longleftrightarrow> KeyParts c \<noteq> [] \<and> prefix ''.'' (last (KeyParts c))"
    unfolding c by (simp add: node_inv_def node.truncate_def startsWith_def)
  moreover have "c \<notin> set (page_items cmp opts n) \<longleftrightarrow> IsHiddenFile c \<and> \<not> includeHiddenFiles opts"
    using assms(3) by (auto simp: page_items_def visible_children_def)
  ultimately show ?thesis by simp
qed

lemma example_hidden_tree:
  "build_tree example_options [obj ''.env'', obj ''.git/config'', obj ''readme.md''] =
     Inr (nodes_of (build_tree example_options
       [obj ''.env'', obj ''.git/config'', obj ''readme.md'']))"
  by code_simp

theorem C5_hidden_children_excluded_witness:
  "map summary (Children (nodes_of (build_tree example_options
       [obj ''.env'', obj ''.git/config'', obj ''readme.md'']) ! 1))
     = [(Some ''.env'', [''.env''], False), (Some ''.git'', [''.git''], True),
        (Some ''readme.md'', [''readme.md''], False)]
   \<and> map summary (page_items (localeCompare (example_env [])) example_options
       (nodes_of (build_tree example_options
          [obj ''.env'', obj ''.git/config'', obj ''readme.md'']) ! 1))
     = [(Some ''readme.md'', [''readme.md''], False)]
   \<and> Children (nodes_of (build_tree example_options
          [obj ''.env'', obj ''.git/config'', obj ''readme.md'']) ! 1) ! 1
       \<notin> set (page_items (localeCompare (example_env [])) example_options
           (nodes_of (build_tree example_options
              [obj ''.env'', obj ''.git/config'', obj ''readme.md'']) ! 1))
   \<and> IsHiddenFile (Children (nodes_of (build_tree example_options
          [obj ''.env'', obj ''.git/config'', obj ''readme.md'']) ! 1) ! 1)"
proof -
  let ?T = "nodes_of (build_tree example_options
     [obj ''.env'', obj ''.git/config'', obj ''readme.md''])"
  have m: "?T ! 1 \<in> set ?T" "Children (?T ! 1) ! 1 \<in> set (Children (?T ! 1))"
    by code_simp+
  have s: "map summary (Children (?T ! 1))
     = [(Some ''.env'', [''.env''], False), (Some ''.git'', [''.git''], True),
        (Some ''readme.md'', [''readme.md''], False)]"
    "map summary (page_items (localeCompare (example_env [])) example_options (?T ! 1))
     = [(Some ''readme.md'', [''readme.md''], False)]"
    "IsHiddenFile (Children (?T ! 1) ! 1)" "\<not> includeHiddenFiles example_options"
    by code_simp+
  show ?thesis
    using C5_hidden_children_excluded[OF example_hidden_tree m, of "localeCompare (example_env [])"]
    by (simp add: s del: One_nat_def)
qed

text \<open>
  The claim as the specification words it fails for a hidden folder: in the listing of the
  single key \<open>.git/config\<close>, with the option to include hidden files unset, the only child of
  the root is the folder \<open>.git\<close>, and the listing of the root is empty.
\<close>

theorem C5_hidden_folder_excluded_counterexample:
  "\<not> includeHiddenFiles example_options
   \<and> summary (nodes_of (build_tree example_options [obj ''.git/config'']) ! 2)
       = (Some ''/'', [], True)
   \<and> map summary (Children (nodes_of (build_tree example_options [obj ''.git/config'']) ! 2))
       = [(Some ''.git'', [''.git''], True)]
   \<and> map IsFile (Children (nodes_of (build_tree example_options [obj ''.git/config'']) ! 2))
       = [False]
   \<and> page_items (localeCompare (example_env [])) example_options
        (nodes_of (build_tree example_options [obj ''.git/config'']) ! 2) = []"
  by code_simp

section \<open>Ancestor folders\<close>

lemma join_append:
  "xs \<noteq> [] \<Longrightarrow> ys \<noteq> [] \<Longrightarrow> join sep (xs @ ys) = join sep xs @ sep @ join sep ys"
proof (induction xs rule: induct_list012)
  case 1
  then show ?case by simp
next
  case (2 x)
  then show ?case by (cases ys) simp_all
next
  case (3 x y zs)
  then show ?case by simp
qed

lemma join_take_prefix:
  assumes "segments_ok ps" and "0 < i" and "i < length ps"
  shows "\<exists>rest. rest \<noteq> [] \<and> join ''/'' ps = join ''/'' (take i ps) @ ''/'' @ rest"
proof -
  have "take i ps \<noteq> []" "drop i ps \<noteq> []" using assms by auto
  then have "join ''/'' (take i ps @ drop i ps)
      = join ''/'' (take i ps) @ ''/'' @ join ''/'' (drop i ps)"
    by (rule join_append)
  moreover have "segments_ok (drop i ps)"
    using assms(1) unfolding segments_ok_def list_all_iff by (auto dest: in_set_dropD)
  then have "join ''/'' (drop i ps) \<noteq> []"
    using \<open>drop i ps \<noteq> []\<close> by (simp add: join_eq_Nil_iff)
  ultimately show ?thesis by auto
qed

lemma join_inj:
  assumes "segments_ok ps" and "segments_ok qs" and "join ''/'' ps = join ''/'' qs"
  shows "ps = qs"
proof -
  have "ps = keyParts_of (Some (join ''/'' ps))"
    using assms(1) by (simp only: keyParts_of_join)
  also have "\<dots> = keyParts_of (Some (join ''/'' qs))"
    by (simp only: assms(3))
  also have "\<dots> = qs"
    using assms(2) by (simp only: keyParts_of_join)
  finally show ?thesis .
qed

lemma plain_key_normKey:
  assumes "plain_key k"
  shows "removeLeadingTrailingSlashes k = Some (join ''/'' (keyParts_of k))"
proof -
  from assms obtain s where k: "k = Some s"
    and s: "s = join ''/'' (keyParts_of k) \<or> s = join ''/'' (keyParts_of k) @ ''/''"
    unfolding plain_key_def by (cases k) auto
  from s show ?thesis
  proof
    assume "s = join ''/'' (keyParts_of k)"
    then have "k = Some (join ''/'' (keyParts_of k))" using k by simp
    then show ?thesis using rlts_join[OF keyParts_of_ok[of k]] by simp
  next
    assume "s = join ''/'' (keyParts_of k) @ ''/''"
    then have "k = Some (join ''/'' (keyParts_of k) @ ''/'')" using k by simp
    then show ?thesis using rlts_join_slash[OF keyParts_of_ok[of k]] by simp
  qed
qed

lemma rlts_synth_key:
  assumes "segments_ok ps"
  shows "removeLeadingTrailingSlashes (Some (if ps = [] then ''/'' else join ''/'' ps))
           = Some (join ''/'' ps)"
proof (cases "ps = []")
  case True
  have "strip_trailing (strip_leading ''/'') = []" by simp
  then have "removeLeadingTrailingSlashes (Some ''/'') = Some []"
    by (simp add: removeLeadingTrailingSlashes_def truthy_def)
  with True show ?thesis by simp
next
  case False
  then show ?thesis using rlts_join[OF assms] by simp
qed

lemma synth_normKey:
  assumes "segments_ok (KeyParts r)"
  shows "normKey (synthesize opts r i) = Some (join ''/'' (KeyParts (synthesize opts r i)))"
  unfolding normKey_def synthesize_fields[OF assms]
  using segments_ok_take[OF assms] by (rule rlts_synth_key)

lemma filter_key_singleton:
  assumes "distinct (map f xs)" and "x \<in> set xs"
  shows "filter (\<lambda>m. f m = f x) xs = [x]"
  using assms
proof (induction xs)
  case Nil
  then show ?case by simp
next
  case (Cons a xs)
  show ?case
  proof (cases "a = x")
    case True
    from Cons.prems(1) True have "f x \<notin> f ` set xs" by simp
    then have "\<forall>m\<in>set xs. f m \<noteq> f x" by (metis imageI)
    then have "filter (\<lambda>m. f m = f x) xs = []"
      by (simp add: filter_empty_conv)
    with True show ?thesis by simp
  next
    case False
    with Cons.prems have "x \<in> set xs" "f a \<noteq> f x" by auto
    with Cons show ?thesis by simp
  qed
qed


lemma classified_object:
  assumes "classify_all opts allObjects = Inr nodes" and "r \<in> set nodes"
  obtains object where "object \<in> set allObjects" and "classify opts allObjects object = Inr r"
  using map_result_set[OF assms[unfolded classify_all_def]] by blast

lemma real_plain_normKey:
  assumes "classify_all opts allObjects = Inr nodes"
    and "\<forall>object\<in>set allObjects. plain_key (Key object)" and "r \<in> set nodes"
  shows "normKey r = Some (join ''/'' (KeyParts r))"
proof -
  from assms(1,3) obtain object where o: "object \<in> set allObjects"
    and c: "classify opts allObjects object = Inr r" by (rule classified_object)
  from o assms(2) have "plain_key (Key object)" by blast
  then show ?thesis
    unfolding normKey_def classify_fields(1,2)[OF c] by (rule plain_key_normKey)
qed

lemma merged_plain_normKey:
  assumes "classify_all opts allObjects = Inr nodes"
    and "\<forall>object\<in>set allObjects. plain_key (Key object)" and "m \<in> set (merged opts nodes)"
  shows "normKey m = Some (join ''/'' (KeyParts m))"
proof -
  from merged_cases[OF assms(3)] show ?thesis
  proof
    assume "m \<in> set nodes"
    with assms(1,2) show ?thesis by (rule real_plain_normKey)
  next
    assume "\<exists>r\<in>set nodes. \<exists>i<LevelsDeep r. m = synthesize opts r i"
    then obtain r i where r: "r \<in> set nodes" and m: "m = synthesize opts r i" by blast
    have "segments_ok (KeyParts r)"
      using classified_node_inv[OF assms(1) r] by (simp add: node_inv_def)
    then show ?thesis unfolding m by (rule synth_normKey)
  qed
qed

lemma plain_key_cases:
  assumes "plain_key (Key object)"
  obtains "Key object = Some (join ''/'' (keyParts_of (Key object)))"
  | "Key object = Some (join ''/'' (keyParts_of (Key object)) @ ''/'')"
  using assms unfolding plain_key_def by (cases "Key object") auto

lemma real_prefix_is_folder:
  assumes "classify_all opts allObjects = Inr nodes"
    and "\<forall>object\<in>set allObjects. plain_key (Key object)"
    and "r \<in> set nodes" and "m \<in> set nodes"
    and "0 < i" and "i < length (KeyParts r)" and "KeyParts m = take i (KeyParts r)"
  shows "IsFolder m"
proof -
  from assms(1,3) obtain o_r where o_r: "o_r \<in> set allObjects"
    and c_r: "classify opts allObjects o_r = Inr r" by (rule classified_object)
  from assms(1,4) obtain o_m where o_m: "o_m \<in> set allObjects"
    and c_m: "classify opts allObjects o_m = Inr m" by (rule classified_object)
  let ?ps = "KeyParts r"
  let ?s = "join ''/'' (take i ?ps)"
  have ps: "keyParts_of (Key o_r) = ?ps" using classify_fields(2)[OF c_r] by simp
  have qs: "keyParts_of (Key o_m) = take i ?ps"
    using classify_fields(2)[OF c_m] assms(7) by simp
  have "segments_ok ?ps" using keyParts_of_ok[of "Key o_r"] ps by simp
  then obtain rest where rest: "rest \<noteq> []" "join ''/'' ?ps = ?s @ ''/'' @ rest"
    using join_take_prefix[OF _ assms(5,6)] by blast
  obtain k where k: "Key o_r = Some k" "k = ?s @ ''/'' @ rest \<or> k = ?s @ ''/'' @ rest @ ''/''"
    using o_r assms(2) rest(2) ps by (auto elim!: plain_key_cases[of o_r])
  obtain k2 where k2: "Key o_m = Some k2" "k2 = ?s \<or> k2 = ?s @ ''/''"
    using o_m assms(2) qs by (auto elim!: plain_key_cases[of o_m])
  have "prefix k2 k" using k(2) k2(2) by (auto simp: prefix_def)
  moreover have "k \<noteq> k2" using k(2) k2(2) rest(1) by auto
  ultimately have "\<exists>k'. Some k' \<in> Key ` set allObjects \<and> prefix k2 k' \<and> k' \<noteq> k2"
    using o_r k(1) by (metis image_eqI)
  then have "isFolder_of allObjects o_m"
    unfolding isFolder_of_iff[OF k2(1)] .
  then show ?thesis using classify_fields(4)[OF c_m] by simp
qed

text \<open>
  Where the ancestors are kept. When every listed key is in plain form (its segments joined
  by single slashes, with at most one trailing slash), a listed object whose normalized key
  is that of an ancestor is a raw prefix of the file's key and so itself a folder: for
  every file node of depth \<open>N\<close> and every depth \<open>i\<close> from \<open>1\<close> to \<open>N - 1\<close> the final tree
  then holds exactly one folder node whose key parts are the first \<open>i\<close> key parts of the
  file. Plain form is sufficient, not necessary.
\<close>

lemma ancestor_folders_once_plain_keys:
  assumes "build_tree opts allObjects = Inr tree"
    and "\<forall>object\<in>set allObjects. plain_key (Key object)"
    and "n \<in> set tree" and "IsFile n" and "0 < i" and "i < LevelsDeep n"
  shows "length (filter (\<lambda>m. IsFolder m \<and> KeyParts m = take i (KeyParts n)) tree) = 1"
proof -
  from assms(1) obtain nodes where c: "classify_all opts allObjects = Inr nodes"
    and t: "tree = link (dedup (merged opts nodes))" by (rule build_tree_Inr)
  let ?array = "dedup (merged opts nodes)"
  from assms(3) obtain n0 where n0: "n0 \<in> set ?array" and n: "n = attach ?array n0"
    unfolding t link_def by auto
  have n0m: "n0 \<in> set (merged opts nodes)" using n0 set_dedup_subset by blast
  have inv0: "node_inv opts n0" using c n0m by (rule merged_node_inv)
  let ?ps = "KeyParts n0"
  let ?s = "join ''/'' (take i ?ps)"
  have isfile: "\<not> IsFolder n0" using assms(4) inv0 by (simp add: n attach_def node_inv_def)
  have len: "i < length ?ps" using assms(6) inv0 by (simp add: n attach_def node_inv_def)
  have ok: "segments_ok ?ps" using inv0 by (simp add: node_inv_def)
  have real: "n0 \<in> set nodes"
    using merged_cases[OF n0m] isfile classified_node_inv[OF c]
    by (auto simp: node_inv_def synthesize_fields)
  have lev: "i < LevelsDeep n0" using assms(6) by (simp add: n attach_def)
  let ?f = "synthesize opts n0 i"
  have fm: "?f \<in> set (merged opts nodes)" using real lev by (rule merged_synth)
  have fk: "normKey ?f = Some ?s"
    using synth_normKey[OF ok, of opts i] synthesize_fields(1)[OF ok, of opts i] by simp
  obtain m0 where m0: "find (\<lambda>m. normKey m = Some ?s) (merged opts nodes) = Some m0"
    using fm fk by (cases "find (\<lambda>m. normKey m = Some ?s) (merged opts nodes)")
      (auto simp: find_None_iff)
  then have "find (\<lambda>m. normKey m = Some ?s) ?array = Some m0"
    by (simp add: find_dedup)
  then have m0a: "m0 \<in> set ?array" and m0k: "normKey m0 = Some ?s"
    unfolding find_Some_iff by auto
  have one: "filter (\<lambda>m. normKey m = Some ?s) ?array = [m0]"
    using filter_key_singleton[OF distinct_dedup m0a] m0k by simp
  have eq: "(IsFolder m \<and> KeyParts m = take i ?ps) \<longleftrightarrow> normKey m = Some ?s"
    if "m \<in> set ?array" for m
  proof -
    have mm: "m \<in> set (merged opts nodes)" using that set_dedup_subset by blast
    have nk: "normKey m = Some (join ''/'' (KeyParts m))"
      using c assms(2) mm by (rule merged_plain_normKey)
    have okm: "segments_ok (KeyParts m)"
      using merged_node_inv[OF c mm] by (simp add: node_inv_def)
    show ?thesis
    proof
      assume "IsFolder m \<and> KeyParts m = take i ?ps"
      then show "normKey m = Some ?s" using nk by simp
    next
      assume "normKey m = Some ?s"
      then have "join ''/'' (KeyParts m) = ?s" using nk by simp
      then have kp: "KeyParts m = take i ?ps"
        using join_inj[OF okm segments_ok_take[OF ok]] by blast
      from merged_cases[OF mm] have "IsFolder m"
      proof
        assume "m \<in> set nodes"
        with c assms(2) real show ?thesis
          using assms(5) len kp by (rule real_prefix_is_folder)
      next
        assume "\<exists>r\<in>set nodes. \<exists>i<LevelsDeep r. m = synthesize opts r i"
        then obtain r j where r: "r \<in> set nodes" and m: "m = synthesize opts r j" by blast
        have "segments_ok (KeyParts r)"
          using classified_node_inv[OF c r] by (simp add: node_inv_def)
        then show ?thesis unfolding m by (rule synthesize_fields)
      qed
      with kp show "IsFolder m \<and> KeyParts m = take i ?ps" by simp
    qed
  qed
  have "filter (\<lambda>m. IsFolder m \<and> KeyParts m = take i (KeyParts n)) tree
      = map (attach ?array) (filter (\<lambda>m. IsFolder m \<and> KeyParts m = take i ?ps) ?array)"
    unfolding t link_def filter_map n by (simp add: comp_def attach_def)
  also have "filter (\<lambda>m. IsFolder m \<and> KeyParts m = take i ?ps) ?array
      = filter (\<lambda>m. normKey m = Some ?s) ?array"
    using eq by (intro filter_cong) auto
  finally show ?thesis using one by simp
qed

lemma example_deep_tree:
  "build_tree example_options [obj ''docs/guide/readme.md''] =
     Inr (nodes_of (build_tree example_options [obj ''docs/guide/readme.md'']))"
  by code_simp

lemma ancestor_folders_once_example:
  "map summary (nodes_of (build_tree example_options [obj ''docs/guide/readme.md'']))
     = [(Some ''docs/guide/readme.md'', [''docs'', ''guide'', ''readme.md''], False),
        (Some ''docs/guide'', [''docs'', ''guide''], True),
        (Some ''docs'', [''docs''], True), (Some ''/'', [], True)]
   \<and> length (filter (\<lambda>m. IsFolder m \<and> KeyParts m = [''docs''])
        (nodes_of (build_tree example_options [obj ''docs/guide/readme.md'']))) = 1
   \<and> length (filter (\<lambda>m. IsFolder m \<and> KeyParts m = [''docs'', ''guide''])
        (nodes_of (build_tree example_options [obj ''docs/guide/readme.md'']))) = 1"
proof -
  let ?T = "nodes_of (build_tree example_options [obj ''docs/guide/readme.md''])"
  have p: "\<forall>object\<in>set [obj ''docs/guide/readme.md'']. plain_key (Key object)"
    by code_simp
  have m: "?T ! 0 \<in> set ?T" and f: "IsFile (?T ! 0)" and l: "LevelsDeep (?T ! 0) = 3"
    and k: "KeyParts (?T ! 0) = [''docs'', ''guide'', ''readme.md'']"
    by code_simp+
  have s: "map summary ?T
     = [(Some ''docs/guide/readme.md'', [''docs'', ''guide'', ''readme.md''], False),
        (Some ''docs/guide'', [''docs'', ''guide''], True),
        (Some ''docs'', [''docs''], True), (Some ''/'', [], True)]"
    by code_simp
  have i1: "(0::nat) < 1" "1 < LevelsDeep (?T ! 0)" and i2: "(0::nat) < 2" "2 < LevelsDeep (?T ! 0)"
    by (simp_all add: l)
  have t: "take 1 [''docs'', ''guide'', ''readme.md''] = [''docs'']"
    "take 2 [''docs'', ''guide'', ''readme.md''] = [''docs'', ''guide'']"
    by simp_all
  show ?thesis
    using ancestor_folders_once_plain_keys[OF example_deep_tree p m f i1]
      ancestor_folders_once_plain_keys[OF example_deep_tree p m f i2]
    by (simp only: k t s simp_thms)
qed

text \<open>
  Claim C3, evaluated on the program. The claim asks, for every file node of depth \<open>N\<close>,
  for exactly one folder node for each proper prefix of its key parts, and the \<open>flatMap\<close>
  does synthesize these folders. The duplicate filter can drop one again: in the listing
  of the keys \<open>a//\<close> and \<open>a/b\<close> the object \<open>a//\<close> is a file whose normalized key is \<open>a\<close>;
  it comes first in the merged sequence, so the synthesized folder \<open>a\<close> is filtered out.
  The final tree then has the file \<open>a/b\<close> of depth two and no folder node for its prefix
  \<open>a\<close>; the root is the only node that is rendered, its listing holds \<open>a//\<close> alone, and
  \<open>a/b\<close> appears on no page.
\<close>

theorem C3_ancestor_folder_dropped_by_filter:
  "map summary (merged example_options
       (nodes_of (classify_all example_options [obj ''a//'', obj ''a/b''])))
     = [(Some ''a//'', [''a''], False), (Some ''/'', [], True),
        (Some ''a/b'', [''a'', ''b''], False), (Some ''a'', [''a''], True),
        (Some ''/'', [], True)]
   \<and> map summary (nodes_of (build_tree example_options [obj ''a//'', obj ''a/b'']))
     = [(Some ''a//'', [''a''], False), (Some ''/'', [], True),
        (Some ''a/b'', [''a'', ''b''], False)]
   \<and> IsFile (nodes_of (build_tree example_options [obj ''a//'', obj ''a/b'']) ! 2)
   \<and> LevelsDeep (nodes_of (build_tree example_options [obj ''a//'', obj ''a/b'']) ! 2) = 2
   \<and> filter (\<lambda>m. IsFolder m \<and> KeyParts m = take 1
         (KeyParts (nodes_of (build_tree example_options [obj ''a//'', obj ''a/b'']) ! 2)))
        (nodes_of (build_tree example_options [obj ''a//'', obj ''a/b''])) = []
   \<and> map summary (filter (\<lambda>m. \<not> IsFile m)
        (nodes_of (build_tree example_options [obj ''a//'', obj ''a/b''])))
     = [(Some ''/'', [], True)]
   \<and> map summary (page_items (localeCompare (example_env [])) example_options
        (nodes_of (build_tree example_options [obj ''a//'', obj ''a/b'']) ! 1))
     = [(Some ''a//'', [''a''], False)]"
  by code_simp

section \<open>The main routine\<close>

lemma list_objects_single:
  "client command = Inr \<lparr> Contents = c, NextMarker = None \<rparr> \<Longrightarrow>
   list_objects client b command allObjects trace
     = Some (trace @ [Send command], Inr (allObjects @ (case c of None \<Rightarrow> [] | Some c \<Rightarrow> c)))"
  by (subst list_objects.simps) (simp add: truthy_opt_def)

text \<open>
  Claim C6, evaluated on the program. For an empty listing the reconstruction returns the
  empty list of nodes: there is no root node, and a run on an empty bucket sends the one
  listing request, renders and writes no page, and only copies the static assets.
\<close>

theorem C6_empty_listing_has_no_root:
  "build_tree opts [] = Inr []
   \<and> run (example_env []) example_options =
       Some ([Send \<lparr> Bucket = ''b'', MaxKeys = 1000, Marker = None \<rparr>, ConsoleLogResult [],
              CopyDir ''src/../public'' ''./public''], Completed)"
proof -
  have a: "build_tree opts [] = Inr []" for opts
    by (simp add: build_tree_def classify_all_def merged_def dedup_def link_def)
  have "run (example_env []) example_options =
       Some ([Send \<lparr> Bucket = ''b'', MaxKeys = 1000, Marker = None \<rparr>, ConsoleLogResult [],
              CopyDir ''src/../public'' ''./public''], Completed)"
    by (simp add: a run_def Let_def list_objects_single example_env_def example_options_def
        truthy_def truthy_opt_def)
  with a show ?thesis by simp
qed

text \<open>
  Claim C8. When the sitemap is requested and no domain is configured, the run ends with
  exit code 1, and the trace up to the exit holds no listing request and no write to the
  file system (only console output).
\<close>

theorem C8_sitemap_without_domain_exits:
  assumes "includeSitemap opts" and "\<not> truthy (domain opts)"
  shows "\<exists>trace. run e opts = Some (trace, Exit 1) \<and> filter is_io trace = []"
  using assms by (simp add: run_def Let_def)

theorem C8_sitemap_without_domain_exits_witness:
  "includeSitemap (example_options \<lparr> includeSitemap := True \<rparr>)
   \<and> \<not> truthy (domain (example_options \<lparr> includeSitemap := True \<rparr>))
   \<and> (\<exists>trace. run (example_env [obj ''a'']) (example_options \<lparr> includeSitemap := True \<rparr>)
                  = Some (trace, Exit 1) \<and> filter is_io trace = [])"
proof -
  have a: "includeSitemap (example_options \<lparr> includeSitemap := True \<rparr>)"
    and b: "\<not> truthy (domain (example_options \<lparr> includeSitemap := True \<rparr>))"
    by (simp_all add: example_options_def truthy_def)
  from C8_sitemap_without_domain_exits[OF a b, of "example_env [obj ''a'']"] a b
  show ?thesis by blast
qed

end
